theory Spec2Isabelle
  imports Complex_Main "HOL-Library.Multiset" "HOL-Library.Log_Nat"
begin

section \<open>Chill requirement models over temperature time series\<close>

text \<open>
  The models of \<^verbatim>\<open>chill_models.py\<close> take a pandas DataFrame with a datetime index
  (timezone-naive local time) and a column \<^verbatim>\<open>temp\<close>. The embedding keeps what the
  functions use of it:
  \<^item> a timestamp is the integer that a datetime index stores, nanoseconds since
    1970-01-01 00:00. The index stores it in 64 bits; the embedding keeps it an integer
    and writes out the error that pandas raises when a timestamp it computes leaves the
    64-bit range;
  \<^item> a series is the list of its (timestamp, value) entries in index order;
  \<^item> temperatures and chill units are finite numbers (no NaN in the column), read as
    the exact reals they denote. Where the source leaves the finite numbers or a
    property turns on the rounding of 64-bit floats, the result type is \<open>fval\<close> and the
    rounding is written out: the division of \<^verbatim>\<open>landsberg\<close> and the subtraction of the
    reset in \<open>reset_chill_hours_f64\<close>;
  \<^item> an exception is a value \<open>Inl e\<close> of a sum type, and the warning that the models
    print is the list of printed lines returned next to the result.

  The pandas operations are embedded as pandas 1.x defines them, the versions in which
  \<^verbatim>\<open>pd.infer_freq\<close> names the hourly frequency \<^verbatim>\<open>'H'\<close> as the source expects.
\<close>

subsection \<open>Timestamps and calendar fields\<close>

type_synonym timestamp = int

type_synonym 'a series = "(timestamp \<times> 'a) list"

definition ns_per_hour :: int where
  "ns_per_hour = 3600000000000"

definition ns_per_day :: int where
  "ns_per_day = 86400000000000"

text \<open>Exceptions that the modelled code paths raise.\<close>

datatype error = ValueError | IndexError | OutOfBoundsDatetime

text \<open>
  The proleptic Gregorian date (year, month, day) of a day count since 1970-01-01, which
  is how the fields \<^verbatim>\<open>year\<close> and \<^verbatim>\<open>dayofyear\<close> of a datetime index are
  computed from the stored integer.
\<close>

definition civil_from_days :: "int \<Rightarrow> int \<times> int \<times> int" where
  "civil_from_days z0 =
     (let z = z0 + 719468;
          era = z div 146097;
          doe = z - era * 146097;
          yoe = (doe - doe div 1460 + doe div 36524 - doe div 146096) div 365;
          y = yoe + era * 400;
          doy = doe - (365 * yoe + yoe div 4 - yoe div 100);
          mp = (5 * doy + 2) div 153;
          d = doy - (153 * mp + 2) div 5 + 1;
          m = (if mp < 10 then mp + 3 else mp - 9)
      in (if m \<le> 2 then y + 1 else y, m, d))"

definition is_leap :: "int \<Rightarrow> bool" where
  "is_leap y = (y mod 4 = 0 \<and> (y mod 100 \<noteq> 0 \<or> y mod 400 = 0))"

definition days_before_month :: "int \<Rightarrow> int \<Rightarrow> int" where
  "days_before_month y m =
     (if m \<le> 1 then 0 else if m = 2 then 31
      else (if is_leap y then 1 else 0) +
        (if m = 3 then 59 else if m = 4 then 90 else if m = 5 then 120
         else if m = 6 then 151 else if m = 7 then 181 else if m = 8 then 212
         else if m = 9 then 243 else if m = 10 then 273 else if m = 11 then 304
         else 334))"

text \<open>\<^verbatim>\<open>datetime.timetuple().tm_yday\<close>: the day of the year of a calendar date, 1 to 366.\<close>

definition tm_yday :: "int \<times> int \<times> int \<Rightarrow> int" where
  "tm_yday date = (case date of (y, m, d) \<Rightarrow> days_before_month y m + d)"

definition year :: "timestamp \<Rightarrow> int" where
  "year t = fst (civil_from_days (t div ns_per_day))"

definition dayofyear :: "timestamp \<Rightarrow> int" where
  "dayofyear t = tm_yday (civil_from_days (t div ns_per_day))"

subsection \<open>Frequency inference and resampling\<close>

text \<open>
  The test \<^verbatim>\<open>pd.infer_freq(df.index) == 'H'\<close>. Frequency inference raises ValueError
  on fewer than three timestamps; otherwise it answers \<^verbatim>\<open>'H'\<close> exactly when the
  differences of consecutive timestamps have one value, and that value is one hour.
\<close>

definition deltas :: "timestamp list \<Rightarrow> int list" where
  "deltas idx = map (\<lambda>(a, b). b - a) (zip idx (tl idx))"

definition infer_freq_is_H :: "timestamp list \<Rightarrow> error + bool" where
  "infer_freq_is_H idx =
     (if length idx < 3 then Inl ValueError
      else Inr (set (deltas idx) = {ns_per_hour}))"

text \<open>
  \<^verbatim>\<open>date_range(start, end, freq)\<close>: the timestamps \<open>start\<close>, \<open>start + freq\<close>, ... that do
  not exceed \<open>end\<close>.
\<close>

definition date_range :: "timestamp \<Rightarrow> timestamp \<Rightarrow> int \<Rightarrow> timestamp list" where
  "date_range start end freq =
     map (\<lambda>k. start + int k * freq) [0..<nat ((end - start) div freq + 1)]"

text \<open>
  The labels of an upsampling \<^verbatim>\<open>resample(freq)\<close> with the default left-closed bins
  anchored at the midnight before the first timestamp: the bin edges run from the
  first timestamp rounded down to one bin past the last timestamp, and the last edge is
  no label.
\<close>

definition bin_labels :: "int \<Rightarrow> timestamp \<Rightarrow> timestamp \<Rightarrow> timestamp list" where
  "bin_labels freq t_first t_last =
     (let origin = t_first - t_first mod ns_per_day;
          foffset = (t_first - origin) mod freq;
          loffset = (t_last - origin) mod freq;
          fresult = t_first - foffset;
          lresult = t_last + (freq - loffset)
      in butlast (date_range fresult lresult freq))"

text \<open>
  Backward fill: a label takes the value of the first observation at or after it. A
  label after the last observation would hold NaN in pandas; it gets no entry here, and
  \<open>bin_labels\<close> builds no such label.
\<close>

definition bfill :: "'a series \<Rightarrow> timestamp list \<Rightarrow> 'a series" where
  "bfill obs labels =
     List.map_filter
       (\<lambda>l. map_option (\<lambda>(t, v). (l, v)) (find (\<lambda>(t, v). l \<le> t) obs)) labels"

text \<open>
  The timestamps that 64 bits hold, the smallest value being kept for the missing
  timestamp. The resampler computes the midnight before the first timestamp and the
  bin edge after the last one; it raises OutOfBoundsDatetime when the edge after the
  last timestamp is no timestamp any more, and the embedding takes the midnight before
  the first timestamp the same way.
\<close>

definition ts_min :: timestamp where
  "ts_min = - 9223372036854775807"

definition ts_max :: timestamp where
  "ts_max = 9223372036854775807"

definition out_of_bounds :: "int \<Rightarrow> timestamp \<Rightarrow> timestamp \<Rightarrow> bool" where
  "out_of_bounds freq t_first t_last =
     (let origin = t_first - t_first mod ns_per_day;
          loffset = (t_last - origin) mod freq;
          lresult = t_last + (freq - loffset)
      in origin < ts_min \<or> ts_max < lresult)"

text \<open>
  \<^verbatim>\<open>series.resample(freq).bfill()\<close>: the resampler sorts the series by timestamp (a
  stable sort) and computes the bin edges, which raises when they leave the range of
  the timestamps; filling by a method raises ValueError when two entries share a
  timestamp.
\<close>

definition resample_bfill :: "int \<Rightarrow> 'a series \<Rightarrow> error + 'a series" where
  "resample_bfill freq s =
     (let obs = sort_key fst s
      in if obs = [] then Inr []
         else if out_of_bounds freq (fst (hd obs)) (fst (last obs)) then Inl OutOfBoundsDatetime
         else if \<not> distinct (map fst obs) then Inl ValueError
         else Inr (bfill obs (bin_labels freq (fst (hd obs)) (fst (last obs)))))"

definition reindex_warning :: string where
  "reindex_warning =
     ''Warning: reindexing was required. This series index would not match the original DataFrame one''"

text \<open>
  The block that opens every hourly model: the temperatures as they are when the index
  is inferred to be hourly, otherwise the warning is printed and the temperatures are
  resampled to hours. The first component holds the printed lines.
\<close>

definition normalize :: "real series \<Rightarrow> string list \<times> (error + real series)" where
  "normalize df =
     (case infer_freq_is_H (map fst df) of
        Inl e \<Rightarrow> ([], Inl e)
      | Inr True \<Rightarrow> ([], Inr df)
      | Inr False \<Rightarrow> ([reindex_warning], resample_bfill ns_per_hour df))"

subsection \<open>Threshold models\<close>

fun cumsum_from :: "'a::monoid_add \<Rightarrow> 'a list \<Rightarrow> 'a list" where
  "cumsum_from acc [] = []"
| "cumsum_from acc (x # xs) = (acc + x) # cumsum_from (acc + x) xs"

definition cumsum :: "'a::monoid_add list \<Rightarrow> 'a list" where
  "cumsum xs = cumsum_from 0 xs"

text \<open>
  A boolean series counts as 0 and 1 under \<^verbatim>\<open>cumsum\<close>; \<open>count_where p temps\<close> is
  \<^verbatim>\<open>(p(temps)).cumsum()\<close> on the values of the series.
\<close>

definition count_where :: "(real \<Rightarrow> bool) \<Rightarrow> real series \<Rightarrow> int list" where
  "count_where p temps = cumsum (map (\<lambda>(t, v). if p v then 1 else 0) temps)"

definition chilling_hours :: "real series \<Rightarrow> string list \<times> (error + int series)" where
  "chilling_hours df =
     (case normalize df of
        (out, Inl e) \<Rightarrow> (out, Inl e)
      | (out, Inr temps) \<Rightarrow>
          (out, Inr (zip (map fst temps) (count_where (\<lambda>v. v < 7.2) temps))))"

text \<open>
  Arithmetic on the values of series that share one index: a count series times a float,
  and the sum and difference of two series, entry by entry.
\<close>

definition scale :: "real \<Rightarrow> int list \<Rightarrow> real list" where
  "scale c xs = map (\<lambda>x. c * real_of_int x) xs"

definition vadd :: "'a::plus list \<Rightarrow> 'a list \<Rightarrow> 'a list" where
  "vadd xs ys = map (\<lambda>(x, y). x + y) (zip xs ys)"

definition vsub :: "'a::minus list \<Rightarrow> 'a list \<Rightarrow> 'a list" where
  "vsub xs ys = map (\<lambda>(x, y). x - y) (zip xs ys)"

definition utah :: "real series \<Rightarrow> bool \<Rightarrow> string list \<times> (error + real series)" where
  "utah df fahrenheit_model =
     (case normalize df of
        (out, Inl e) \<Rightarrow> (out, Inl e)
      | (out, Inr temps) \<Rightarrow>
          (out, Inr (zip (map fst temps)
            (if fahrenheit_model then
               vsub (vsub (vadd (vadd
                 (scale 0.5 (count_where (\<lambda>v. v > 1.1 \<and> v \<le> 2.2) temps))
                 (scale 1.0 (count_where (\<lambda>v. v > 2.2 \<and> v \<le> 8.9) temps)))
                 (scale 0.5 (count_where (\<lambda>v. v > 8.9 \<and> v \<le> 12.2) temps)))
                 (scale 0.5 (count_where (\<lambda>v. v > 15.6 \<and> v \<le> 18.3) temps)))
                 (scale 1.0 (count_where (\<lambda>v. v > 18.3) temps))
             else
               vsub (vsub (vadd (vadd
                 (scale 0.5 (count_where (\<lambda>v. v > 1.4 \<and> v \<le> 2.4) temps))
                 (scale 1.0 (count_where (\<lambda>v. v > 2.4 \<and> v \<le> 9.1) temps)))
                 (scale 0.5 (count_where (\<lambda>v. v > 9.1 \<and> v \<le> 12.4) temps)))
                 (scale 0.5 (count_where (\<lambda>v. v > 15.9 \<and> v \<le> 18) temps)))
                 (scale 1.0 (count_where (\<lambda>v. v > 18) temps))))))"

definition positive_chill_units :: "real series \<Rightarrow> string list \<times> (error + real series)" where
  "positive_chill_units df =
     (case normalize df of
        (out, Inl e) \<Rightarrow> (out, Inl e)
      | (out, Inr temps) \<Rightarrow>
          (out, Inr (zip (map fst temps)
            (vadd (vadd
               (scale 0.5 (count_where (\<lambda>v. v > 1.4 \<and> v \<le> 2.4) temps))
               (scale 1.0 (count_where (\<lambda>v. v > 2.4 \<and> v \<le> 9.1) temps)))
               (scale 0.5 (count_where (\<lambda>v. v > 9.1 \<and> v \<le> 12.4) temps))))))"

definition low_chill :: "real series \<Rightarrow> string list \<times> (error + int series)" where
  "low_chill df =
     (case normalize df of
        (out, Inl e) \<Rightarrow> (out, Inl e)
      | (out, Inr temps) \<Rightarrow>
          (out, Inr (zip (map fst temps)
            (vsub (count_where (\<lambda>v. v \<ge> 1.8 \<and> v \<le> 8) temps)
                  (count_where (\<lambda>v. v > 19.5) temps)))))"

definition north_carolina :: "real series \<Rightarrow> string list \<times> (error + int series)" where
  "north_carolina df =
     (case normalize df of
        (out, Inl e) \<Rightarrow> (out, Inl e)
      | (out, Inr temps) \<Rightarrow>
          (out, Inr (zip (map fst temps)
            (vsub (count_where (\<lambda>v. v \<ge> 1.6 \<and> v \<le> 7.2) temps)
                  (map (\<lambda>x. 2 * x) (count_where (\<lambda>v. v > 23.3) temps))))))"

text \<open>The dynamic model ends after the opening block and returns \<^verbatim>\<open>None\<close>.\<close>

definition dynamic :: "real series \<Rightarrow> string list \<times> (error + unit)" where
  "dynamic df =
     (case normalize df of
        (out, Inl e) \<Rightarrow> (out, Inl e)
      | (out, Inr temps) \<Rightarrow> (out, Inr ()))"

text \<open>
  The weight table of the metric Utah model as the specification words it: one weight
  per hour, chosen by the band that holds the temperature.
\<close>

definition utah_weight_spec :: "real \<Rightarrow> real" where
  "utah_weight_spec v =
     (if 1.4 < v \<and> v \<le> 2.4 then 0.5
      else if 2.4 < v \<and> v \<le> 9.1 then 1.0
      else if 9.1 < v \<and> v \<le> 12.4 then 0.5
      else if 15.9 < v \<and> v \<le> 18.0 then - 0.5
      else if 18.0 < v then - 1.0
      else 0)"

subsection \<open>The daily model\<close>

text \<open>
  The result of a float division as pandas computes it: dividing by zero raises nothing
  and gives an infinity, or NaN for 0 / 0. The sign of a zero divisor is not modelled:
  the divisor 0 is the positive zero.
\<close>

datatype fval = Fin real | PInf | NInf | NaN

definition fdiv :: "real \<Rightarrow> real \<Rightarrow> fval" where
  "fdiv x y =
     (if y \<noteq> 0 then Fin (x / y)
      else if 0 < x then PInf
      else if x < 0 then NInf
      else NaN)"

definition landsberg :: "real series \<Rightarrow> real \<Rightarrow> error + fval series" where
  "landsberg df base_temp =
     (case resample_bfill ns_per_day df of
        Inl e \<Rightarrow> Inl e
      | Inr temps \<Rightarrow>
          Inr (zip (map fst temps) (map (\<lambda>x. fdiv x base_temp) (cumsum (map snd temps)))))"

text \<open>
  The daily means as the specification and the docstring of \<^verbatim>\<open>landsberg\<close> word them:
  one entry per calendar day that has observations, holding the mean of that day's
  temperatures, and the running sum of these means divided by the base temperature.
\<close>

definition day_start :: "timestamp \<Rightarrow> timestamp" where
  "day_start t = t - t mod ns_per_day"

definition daily_means_spec :: "real series \<Rightarrow> real series" where
  "daily_means_spec s =
     map (\<lambda>d. (d, sum_list (map snd (filter (\<lambda>(t, v). day_start t = d) s))
                 / real (length (filter (\<lambda>(t, v). day_start t = d) s))))
       (sort (remdups (map (\<lambda>(t, v). day_start t) s)))"

definition landsberg_spec :: "real series \<Rightarrow> real \<Rightarrow> real series" where
  "landsberg_spec s base_temp =
     zip (map fst (daily_means_spec s))
       (map (\<lambda>x. x / base_temp) (cumsum (map snd (daily_means_spec s))))"

subsection \<open>Dormancy-year reset\<close>

text \<open>
  The parameter \<^verbatim>\<open>reset_date: Union[datetime, int]\<close>; of a datetime only the calendar
  date (year, month, day) enters the day of the year.
\<close>

datatype reset_date = AsInt int | AsDatetime int int int

definition start_doy :: "reset_date \<Rightarrow> int" where
  "start_doy rd = (case rd of AsInt n \<Rightarrow> n | AsDatetime y m d \<Rightarrow> tm_yday (y, m, d))"

text \<open>
  The group key \<^verbatim>\<open>s.index.year + (s.index.dayofyear - start_doy) // 366\<close>. The index
  fields are 64-bit integers, and for an anchor that passes \<open>exact_anchor\<close> no step of the
  computation leaves the 64-bit range, so it is the integer formula below. For other
  anchors numpy wraps around or changes to floats, which the formula does not follow.
\<close>

definition exact_anchor :: "int \<Rightarrow> bool" where
  "exact_anchor n = (- (2 ^ 63) + 366 < n \<and> n < 2 ^ 63)"

definition bucket_key :: "int \<Rightarrow> timestamp \<Rightarrow> int" where
  "bucket_key sd t = year t + (dayofyear t - sd) div 366"

text \<open>
  \<^verbatim>\<open>groupby\<close>: one group per distinct key, in ascending key order, each holding the
  entries of that key in series order.
\<close>

definition group_of :: "(timestamp \<Rightarrow> int) \<Rightarrow> 'a series \<Rightarrow> int \<Rightarrow> 'a series" where
  "group_of key s k = filter (\<lambda>(t, v). key t = k) s"

definition groupby :: "(timestamp \<Rightarrow> int) \<Rightarrow> 'a series \<Rightarrow> 'a series list" where
  "groupby key s = map (group_of key s) (sort (remdups (map (\<lambda>(t, v). key t) s)))"

text \<open>The applied function \<^verbatim>\<open>lambda x: x - x.iloc[0]\<close>; \<^verbatim>\<open>iloc[0]\<close> raises on an empty group.\<close>

fun minus_first :: "real series \<Rightarrow> error + real series" where
  "minus_first [] = Inl IndexError"
| "minus_first ((t0, v0) # x) = Inr (map (\<lambda>(t, v). (t, v - v0)) ((t0, v0) # x))"

text \<open>The results of the calls on the groups, in group order; the first exception ends the run.\<close>

fun collect :: "(error + 'a) list \<Rightarrow> error + 'a list" where
  "collect [] = Inr []"
| "collect (r # rs) =
     (case r of
        Inl e \<Rightarrow> Inl e
      | Inr x \<Rightarrow> (case collect rs of Inl e \<Rightarrow> Inl e | Inr xs \<Rightarrow> Inr (x # xs)))"

text \<open>The elements of a list in order of first occurrence.\<close>

definition unique1d :: "'a list \<Rightarrow> 'a list" where
  "unique1d xs = rev (remdups (rev xs))"

text \<open>
  \<^verbatim>\<open>apply\<close> concatenates the group results and, as every result kept the index of its
  group, brings the concatenation back to the index \<open>ax\<close> of the input: nothing to do
  when the indexes are equal, and otherwise the positions of every label of \<open>ax\<close> in the
  concatenation are looked up, repeated positions dropped, and the entries taken in
  that order.
\<close>

definition restore_order :: "timestamp list \<Rightarrow> 'a series \<Rightarrow> 'a series" where
  "restore_order ax result =
     (if map fst result = ax then result
      else map (\<lambda>j. result ! j)
             (unique1d (concat
                (map (\<lambda>l. filter (\<lambda>j. fst (result ! j) = l) [0..<length result]) ax))))"

definition reset_chill_hours :: "real series \<Rightarrow> reset_date \<Rightarrow> error + real series" where
  "reset_chill_hours s rd =
     (case collect (map minus_first (groupby (bucket_key (start_doy rd)) s)) of
        Inl e \<Rightarrow> Inl e
      | Inr results \<Rightarrow> Inr (restore_order (map fst s) (concat results)))"

text \<open>
  The specification's reading of an hourly index: every timestamp is one hour after the
  one before it.
\<close>

fun regular_hourly :: "timestamp list \<Rightarrow> bool" where
  "regular_hourly (a # b # ts) = (b = a + ns_per_hour \<and> regular_hourly (b # ts))"
| "regular_hourly ts = True"

text \<open>
  The value of an entry relative to the first entry of its group: the entry keeps its
  timestamp and loses the value that the first entry with the same key has in \<open>s\<close>.
\<close>

definition rebase ::
  "(timestamp \<Rightarrow> int) \<Rightarrow> real series \<Rightarrow> timestamp \<times> real \<Rightarrow> timestamp \<times> real" where
  "rebase key s x = (fst x, snd x - snd (hd (group_of key s (key (fst x)))))"

subsection \<open>The reset on 64-bit floats\<close>

text \<open>
  The values of a chill-unit series are 64-bit floats, and \<^verbatim>\<open>x - x.iloc[0]\<close> rounds:
  the result of a subtraction is the float nearest to the exact difference, the one
  with the even mantissa when two are equally near, and an infinity beyond the largest
  float. A float has 53 bits of mantissa; \<open>exponent64 x\<close> is the exponent of the
  power of two at or below \<open>\<bar>x\<bar>\<close>, and the floats around \<open>x\<close> are the multiples of
  \<open>pow2 (exponent64 x - 52)\<close>, or of \<open>pow2 (- 1074)\<close> near zero.
\<close>

definition pow2 :: "int \<Rightarrow> real" where
  "pow2 q = (if 0 \<le> q then 2 ^ nat q else 1 / 2 ^ nat (- q))"

definition exponent64 :: "real \<Rightarrow> int" where
  "exponent64 x =
     (if 1 \<le> \<bar>x\<bar> then bitlen \<lfloor>\<bar>x\<bar>\<rfloor> - 1 else - bitlen (\<lceil>1 / \<bar>x\<bar>\<rceil> - 1))"

definition round_half_even :: "real \<Rightarrow> int" where
  "round_half_even y =
     (let n = \<lfloor>y\<rfloor>; r = y - of_int n
      in if r < 1 / 2 then n else if 1 / 2 < r then n + 1
         else if even n then n else n + 1)"

definition round64 :: "real \<Rightarrow> real" where
  "round64 x =
     (if x = 0 then 0
      else let q = max (exponent64 x - 52) (- 1074)
           in of_int (round_half_even (x / pow2 q)) * pow2 q)"

text \<open>
  The largest float has the exponent 1023: a rounded difference with a larger exponent
  is an infinity.
\<close>

definition fsub :: "real \<Rightarrow> real \<Rightarrow> fval" where
  "fsub x y =
     (let r = round64 (x - y)
      in if r \<noteq> 0 \<and> 1023 < exponent64 r then (if 0 < r then PInf else NInf)
         else Fin r)"

text \<open>The applied function and the reset with the float subtraction.\<close>

fun minus_first_f64 :: "real series \<Rightarrow> error + fval series" where
  "minus_first_f64 [] = Inl IndexError"
| "minus_first_f64 ((t0, v0) # x) = Inr (map (\<lambda>(t, v). (t, fsub v v0)) ((t0, v0) # x))"

definition reset_chill_hours_f64 :: "real series \<Rightarrow> reset_date \<Rightarrow> error + fval series" where
  "reset_chill_hours_f64 s rd =
     (case collect (map minus_first_f64 (groupby (bucket_key (start_doy rd)) s)) of
        Inl e \<Rightarrow> Inl e
      | Inr results \<Rightarrow> Inr (restore_order (map fst s) (concat results)))"

text \<open>The value that the first entry of the bucket of timestamp \<open>t\<close> has in \<open>s\<close>.\<close>

definition first_value :: "(timestamp \<Rightarrow> int) \<Rightarrow> real series \<Rightarrow> timestamp \<Rightarrow> real" where
  "first_value key s t = snd (hd (group_of key s (key t)))"

definition rebase_f64 ::
  "(timestamp \<Rightarrow> int) \<Rightarrow> real series \<Rightarrow> timestamp \<times> real \<Rightarrow> timestamp \<times> fval" where
  "rebase_f64 key s x = (fst x, fsub (snd x) (first_value key s (fst x)))"

section \<open>Worked examples of the threshold models\<close>

text \<open>
  C3. On five consecutive hours with the temperatures 8, 6, 7.2, 5 and 9 the chilling
  hours model prints nothing and returns the running counts 0, 1, 1, 2, 2 on the same
  index, whatever the first timestamp is: an hour counts when its temperature is
  strictly below 7.2, and the hour at 7.2 does not count.
\<close>

theorem chilling_hours_example:
  "chilling_hours [(t0, 8), (t0 + ns_per_hour, 6), (t0 + 2 * ns_per_hour, 7.2),
      (t0 + 3 * ns_per_hour, 5), (t0 + 4 * ns_per_hour, 9)]
   = ([], Inr [(t0, 0), (t0 + ns_per_hour, 1), (t0 + 2 * ns_per_hour, 1),
      (t0 + 3 * ns_per_hour, 2), (t0 + 4 * ns_per_hour, 2)])"
  by (simp add: chilling_hours_def normalize_def infer_freq_is_H_def deltas_def
      count_where_def cumsum_def)

text \<open>
  C4. On five consecutive hours with the temperatures 0, 2.0, 5.0, 17.0 and 20.0 the
  bands of the metric Utah model give the hourly weights 0, 0.5, 1.0, -0.5 and -1.0,
  their running sums are 0, 0.5, 1.5, 1.0 and 0.0, and the model, which adds and
  subtracts the weighted running counts of the five bands, prints nothing and returns
  exactly these running sums on the same index.
\<close>

theorem utah_example:
  "map utah_weight_spec [0, 2.0, 5.0, 17.0, 20.0] = [0, 0.5, 1.0, - 0.5, - 1.0] \<and>
   cumsum (map utah_weight_spec [0, 2.0, 5.0, 17.0, 20.0]) = [0, 0.5, 1.5, 1.0, 0.0] \<and>
   utah [(t0, 0), (t0 + ns_per_hour, 2.0), (t0 + 2 * ns_per_hour, 5.0),
      (t0 + 3 * ns_per_hour, 17.0), (t0 + 4 * ns_per_hour, 20.0)] False
   = ([], Inr [(t0, 0), (t0 + ns_per_hour, 0.5), (t0 + 2 * ns_per_hour, 1.5),
      (t0 + 3 * ns_per_hour, 1.0), (t0 + 4 * ns_per_hour, 0.0)])"
  by (simp add: utah_def normalize_def infer_freq_is_H_def deltas_def utah_weight_spec_def
      count_where_def cumsum_def scale_def vadd_def vsub_def)

section \<open>Dormancy-year reset\<close>

subsection \<open>Split, apply, combine\<close>

text \<open>
  Every group of \<open>groupby\<close> has an entry, so the applied function never raises; the
  groups hold the entries of the series once each; and on an index without repeated
  timestamps the combination puts every rebased entry back at its own position.
\<close>

lemma collect_map_Inr:
  "(\<And>x. x \<in> set xs \<Longrightarrow> f x = Inr (g x)) \<Longrightarrow> collect (map f xs) = Inr (map g xs)"
  by (induction xs) auto

lemma minus_first_nonempty:
  "g \<noteq> [] \<Longrightarrow> minus_first g = Inr (map (\<lambda>(t, v). (t, v - snd (hd g))) g)"
  by (cases g) auto

lemma group_of_nonempty:
  "(t, v) \<in> set s \<Longrightarrow> group_of key s (key t) \<noteq> []"
  by (auto simp: group_of_def filter_empty_conv)

lemma groupby_nonempty: "g \<in> set (groupby key s) \<Longrightarrow> g \<noteq> []"
  by (auto simp: groupby_def dest: group_of_nonempty)

lemma group_of_key: "(t, v) \<in> set (group_of key s k) \<Longrightarrow> key t = k"
  by (auto simp: group_of_def)

lemma mset_concat_filters:
  "distinct ks \<Longrightarrow>
   mset (concat (map (\<lambda>k. filter (\<lambda>x. f x = k) xs) ks)) = mset (filter (\<lambda>x. f x \<in> set ks) xs)"
proof (induction ks)
  case Nil
  then show ?case by simp
next
  case (Cons k ks)
  have "mset (filter (\<lambda>x. f x = k) xs) + mset (filter (\<lambda>x. f x \<in> set ks) xs)
      = mset (filter (\<lambda>x. f x = k \<or> f x \<in> set ks) xs)"
    using Cons.prems by (induction xs) auto
  with Cons show ?case by simp
qed

lemma mset_concat_groupby: "mset (concat (groupby key s)) = mset s"
proof -
  let ?ks = "sort (remdups (map (\<lambda>(t, v). key t) s))"
  have d: "distinct ?ks" by simp
  have g: "groupby key s = map (\<lambda>k. filter (\<lambda>x. key (fst x) = k) s) ?ks"
    by (simp add: groupby_def group_of_def case_prod_unfold)
  have f: "filter (\<lambda>x. key (fst x) \<in> set ?ks) s = s"
    by (auto simp: filter_id_conv case_prod_unfold)
  have "mset (concat (groupby key s)) = mset (filter (\<lambda>x. key (fst x) \<in> set ?ks) s)"
    unfolding g by (rule mset_concat_filters [OF d])
  then show ?thesis by (simp only: f)
qed

lemma filter_label_single:
  "distinct (map fst P) \<Longrightarrow> x \<in> set P \<Longrightarrow> filter (\<lambda>y. fst y = fst x) P = [x]"
proof (induction P)
  case Nil
  then show ?case by simp
next
  case (Cons p P)
  show ?case
  proof (cases "x = p")
    case True
    from Cons.prems(1) have "fst p \<notin> fst ` set P" by simp
    then have "\<forall>y\<in>set P. fst y \<noteq> fst p" by (metis imageI)
    then have "filter (\<lambda>y. fst y = fst p) P = []"
      by (simp add: filter_empty_conv)
    with True show ?thesis by simp
  next
    case False
    with Cons.prems have xin: "x \<in> set P" by simp
    then have "fst x \<in> fst ` set P" by (rule imageI)
    moreover from Cons.prems(1) have "fst p \<notin> fst ` set P" by simp
    ultimately have "fst p \<noteq> fst x" by metis
    with Cons xin show ?thesis by simp
  qed
qed

lemma take_positions:
  "map (\<lambda>j. R ! j) (filter (\<lambda>j. p (R ! j)) [0..<length R]) = filter p R"
proof -
  have "map (\<lambda>j. R ! j) (filter (\<lambda>j. p (R ! j)) [0..<length R])
      = filter p (map (\<lambda>j. R ! j) [0..<length R])"
    by (simp add: filter_map comp_def)
  then show ?thesis by (simp add: map_nth)
qed

lemma unique1d_distinct: "distinct xs \<Longrightarrow> unique1d xs = xs"
  by (simp add: unique1d_def distinct_remdups_id)

lemma distinct_positions:
  "distinct ax \<Longrightarrow>
   distinct (concat (map (\<lambda>l. filter (\<lambda>j. fst (R ! j) = l) [0..<n]) ax))"
proof (induction ax)
  case Nil
  then show ?case by simp
next
  case (Cons a ax)
  then show ?case by auto
qed

lemma restore_order_lookup:
  assumes "distinct ax"
  shows "restore_order ax R = (if map fst R = ax then R
     else concat (map (\<lambda>l. filter (\<lambda>x. fst x = l) R) ax))"
proof -
  let ?pos = "\<lambda>l. filter (\<lambda>j. fst (R ! j) = l) [0..<length R]"
  have "map (\<lambda>j. R ! j) (concat (map ?pos ax))
      = concat (map (\<lambda>l. map (\<lambda>j. R ! j) (?pos l)) ax)"
    by (simp add: map_concat comp_def)
  also have "\<dots> = concat (map (\<lambda>l. filter (\<lambda>x. fst x = l) R) ax)"
    using take_positions [of R "\<lambda>x. fst x = l" for l] by simp
  finally show ?thesis
    using assms by (simp add: restore_order_def unique1d_distinct distinct_positions)
qed

lemma concat_singletons:
  "(\<And>y. y \<in> set s \<Longrightarrow> F y = [h y]) \<Longrightarrow> concat (map F s) = map h s"
  by (induction s) auto

lemma concat_lookup_perm:
  assumes "distinct (map fst s)" and "mset P = mset s" and "\<And>x. fst (h x) = fst x"
  shows "concat (map (\<lambda>l. filter (\<lambda>x. fst x = l) (map h P)) (map fst s)) = map h s"
proof -
  have dP: "distinct (map fst P)"
    using assms(1,2) by (metis mset_eq_imp_distinct_iff mset_map)
  have sP: "set P = set s" using assms(2) by (rule mset_eq_setD)
  have "filter (\<lambda>x. fst x = fst y) (map h P) = [h y]" if "y \<in> set s" for y
  proof -
    have "filter (\<lambda>x. fst x = fst y) (map h P) = map h (filter (\<lambda>x. fst x = fst y) P)"
      by (simp add: filter_map comp_def assms(3))
    with filter_label_single [OF dP] that sP show ?thesis by simp
  qed
  then have "concat (map (\<lambda>y. filter (\<lambda>x. fst x = fst y) (map h P)) s) = map h s"
    by (rule concat_singletons)
  then show ?thesis by (simp add: comp_def)
qed

lemma restore_order_perm:
  assumes "distinct (map fst s)" and "mset P = mset s" and "\<And>x. fst (h x) = fst x"
  shows "restore_order (map fst s) (map h P) = map h s"
proof (cases "map fst (map h P) = map fst s")
  case True
  have "map fst P = map fst s" using True by (simp add: comp_def assms(3))
  have "concat (map (\<lambda>l. filter (\<lambda>x. fst x = l) (map h P)) (map fst P)) = map h P"
    using concat_lookup_perm [of P P h] assms
    by (metis mset_eq_imp_distinct_iff mset_map)
  with \<open>map fst P = map fst s\<close> concat_lookup_perm [OF assms]
  have "map h P = map h s" by simp
  with True assms(1) show ?thesis by (simp add: restore_order_lookup)
next
  case False
  with assms(1) concat_lookup_perm [OF assms] show ?thesis
    by (simp add: restore_order_lookup)
qed

lemma collect_groupby:
  "collect (map minus_first (groupby key s)) = Inr (map (map (rebase key s)) (groupby key s))"
proof (rule collect_map_Inr)
  fix g assume g: "g \<in> set (groupby key s)"
  then obtain k where k: "g = group_of key s k" by (auto simp: groupby_def)
  have "map (\<lambda>(t, v). (t, v - snd (hd g))) g = map (rebase key s) g"
    using k by (auto simp: rebase_def dest: group_of_key)
  with minus_first_nonempty [OF groupby_nonempty [OF g]]
  show "minus_first g = Inr (map (rebase key s) g)" by simp
qed

lemma reset_chill_hours_rebase:
  assumes "distinct (map fst s)"
  shows "reset_chill_hours s rd = Inr (map (rebase (bucket_key (start_doy rd)) s) s)"
proof -
  let ?key = "bucket_key (start_doy rd)"
  have "concat (map (map (rebase ?key s)) (groupby ?key s))
      = map (rebase ?key s) (concat (groupby ?key s))"
    by (simp add: map_concat)
  moreover have "restore_order (map fst s) (map (rebase ?key s) (concat (groupby ?key s)))
      = map (rebase ?key s) s"
    by (rule restore_order_perm [OF assms mset_concat_groupby]) (simp add: rebase_def)
  ultimately show ?thesis
    by (simp add: reset_chill_hours_def collect_groupby)
qed


lemma reset_chill_hours_Inr:
  "reset_chill_hours s rd
   = Inr (restore_order (map fst s)
       (concat (map (map (rebase (bucket_key (start_doy rd)) s))
          (groupby (bucket_key (start_doy rd)) s))))"
  by (simp add: reset_chill_hours_def collect_groupby)

lemma rebase_fst: "fst (rebase key s x) = fst x"
  by (simp add: rebase_def)




subsection \<open>Properties of the reset\<close>



text \<open>
  C7. For a series whose timestamps are pairwise distinct, the reset returns a series
  with as many entries as its input and with the same timestamps in the same order;
  only the values differ.
\<close>

theorem reset_chill_hours_frame:
  assumes "distinct (map fst s)"
  shows "\<exists>out. reset_chill_hours s rd = Inr out \<and> length out = length s \<and>
     map fst out = map fst s"
proof -
  have "reset_chill_hours s rd = Inr (map (rebase (bucket_key (start_doy rd)) s) s)"
    using assms by (rule reset_chill_hours_rebase)
  moreover have "map fst (map (rebase (bucket_key (start_doy rd)) s) s) = map fst s"
    by (simp add: comp_def rebase_fst)
  ultimately show ?thesis by simp
qed

theorem reset_chill_hours_frame_witness:
  "distinct (map fst [(0, 5), (ns_per_day, 7), (2 * ns_per_day, 10 :: real)]) \<and>
   (\<exists>out. reset_chill_hours [(0, 5), (ns_per_day, 7), (2 * ns_per_day, 10)] (AsInt 2) = Inr out \<and>
      length out = 3 \<and> map fst out = [0, ns_per_day, 2 * ns_per_day])"
proof -
  let ?s = "[(0, 5), (ns_per_day, 7), (2 * ns_per_day, 10 :: real)]"
  have d: "distinct (map fst ?s)" by code_simp
  from reset_chill_hours_frame [OF d, of "AsInt 2"]
  obtain out where o: "reset_chill_hours ?s (AsInt 2) = Inr out"
    and l: "length out = length ?s" and f: "map fst out = map fst ?s"
    by blast
  from l have l3: "length out = 3" by simp
  from f have f3: "map fst out = [0, ns_per_day, 2 * ns_per_day]"
    by (simp only: list.map fst_conv)
  show ?thesis
  proof (rule conjI)
    show "distinct (map fst ?s)" by (rule d)
    show "\<exists>out. reset_chill_hours ?s (AsInt 2) = Inr out \<and> length out = 3 \<and>
        map fst out = [0, ns_per_day, 2 * ns_per_day]"
    proof (rule exI [of _ out], intro conjI)
      show "reset_chill_hours ?s (AsInt 2) = Inr out" by (rule o)
      show "length out = 3" by (rule l3)
      show "map fst out = [0, ns_per_day, 2 * ns_per_day]" by (rule f3)
    qed
  qed
qed

text \<open>
  The reset on floats goes through the same groups and the same combination: on
  pairwise distinct timestamps every entry keeps its timestamp and gets the rounded
  difference of its value and the first value of its bucket.
\<close>

lemma minus_first_f64_nonempty:
  "g \<noteq> [] \<Longrightarrow> minus_first_f64 g = Inr (map (\<lambda>(t, v). (t, fsub v (snd (hd g)))) g)"
  by (cases g) auto

lemma collect_groupby_f64:
  "collect (map minus_first_f64 (groupby key s))
   = Inr (map (map (rebase_f64 key s)) (groupby key s))"
proof (rule collect_map_Inr)
  fix g assume g: "g \<in> set (groupby key s)"
  then obtain k where k: "g = group_of key s k" by (auto simp: groupby_def)
  have "map (\<lambda>(t, v). (t, fsub v (snd (hd g)))) g = map (rebase_f64 key s) g"
    using k by (auto simp: rebase_f64_def first_value_def dest: group_of_key)
  with minus_first_f64_nonempty [OF groupby_nonempty [OF g]]
  show "minus_first_f64 g = Inr (map (rebase_f64 key s) g)" by simp
qed

lemma reset_chill_hours_f64_rebase:
  assumes "distinct (map fst s)"
  shows "reset_chill_hours_f64 s rd = Inr (map (rebase_f64 (bucket_key (start_doy rd)) s) s)"
proof -
  let ?key = "bucket_key (start_doy rd)"
  have "concat (map (map (rebase_f64 ?key s)) (groupby ?key s))
      = map (rebase_f64 ?key s) (concat (groupby ?key s))"
    by (simp add: map_concat)
  moreover have "restore_order (map fst s) (map (rebase_f64 ?key s) (concat (groupby ?key s)))
      = map (rebase_f64 ?key s) s"
    by (rule restore_order_perm [OF assms mset_concat_groupby]) (simp add: rebase_f64_def)
  ultimately show ?thesis
    by (simp add: reset_chill_hours_f64_def collect_groupby_f64)
qed

text \<open>
  C10, as the code has it. The subtraction of the reset rounds, so differences within a
  bucket are kept where it is exact: for a series with pairwise distinct timestamps and
  two entries of one bucket, if subtracting the first value of the bucket from either
  value gives the exact difference as a float, then both outputs are finite and their
  difference is the difference of the inputs.
\<close>

theorem reset_chill_hours_f64_differences:
  assumes "distinct (map fst s)" and "i < length s" and "j < length s"
    and "bucket_key (start_doy rd) (fst (s ! i)) = bucket_key (start_doy rd) (fst (s ! j))"
    and "fsub (snd (s ! i)) (first_value (bucket_key (start_doy rd)) s (fst (s ! i)))
         = Fin (snd (s ! i) - first_value (bucket_key (start_doy rd)) s (fst (s ! i)))"
    and "fsub (snd (s ! j)) (first_value (bucket_key (start_doy rd)) s (fst (s ! j)))
         = Fin (snd (s ! j) - first_value (bucket_key (start_doy rd)) s (fst (s ! j)))"
  shows "\<exists>out u v. reset_chill_hours_f64 s rd = Inr out \<and>
     snd (out ! i) = Fin u \<and> snd (out ! j) = Fin v \<and> u - v = snd (s ! i) - snd (s ! j)"
proof -
  let ?key = "bucket_key (start_doy rd)"
  let ?out = "map (rebase_f64 ?key s) s"
  let ?f = "first_value ?key s (fst (s ! i))"
  have same: "first_value ?key s (fst (s ! j)) = ?f"
    using assms(4) by (simp add: first_value_def)
  have o: "reset_chill_hours_f64 s rd = Inr ?out"
    using assms(1) by (rule reset_chill_hours_f64_rebase)
  have u: "snd (?out ! i) = Fin (snd (s ! i) - ?f)"
    using assms(2,5) by (simp add: rebase_f64_def)
  have v: "snd (?out ! j) = Fin (snd (s ! j) - ?f)"
    using assms(3,6) same by (simp add: rebase_f64_def)
  have "(snd (s ! i) - ?f) - (snd (s ! j) - ?f) = snd (s ! i) - snd (s ! j)" by simp
  with o u v show ?thesis by blast
qed

theorem reset_chill_hours_f64_differences_witness:
  "distinct (map fst [(0, 5), (ns_per_day, 7), (2 * ns_per_day, 10 :: real)]) \<and>
   bucket_key 2 (2 * ns_per_day) = bucket_key 2 ns_per_day \<and>
   fsub 10 7 = Fin (10 - 7) \<and> fsub 7 7 = Fin (7 - 7) \<and>
   (\<exists>out u v. reset_chill_hours_f64 [(0, 5), (ns_per_day, 7), (2 * ns_per_day, 10)] (AsInt 2) = Inr out \<and>
      snd (out ! 2) = Fin u \<and> snd (out ! 1) = Fin v \<and> u - v = 3)"
proof -
  let ?s = "[(0, 5), (ns_per_day, 7), (2 * ns_per_day, 10 :: real)]"
  have d: "distinct (map fst ?s)" by code_simp
  have k: "bucket_key 2 (2 * ns_per_day) = bucket_key 2 ns_per_day" by code_simp
  have sd: "start_doy (AsInt 2) = 2" by (simp add: start_doy_def)
  have f2: "first_value (bucket_key 2) ?s (2 * ns_per_day) = 7" by code_simp
  have f1: "first_value (bucket_key 2) ?s ns_per_day = 7" by code_simp
  have e2: "fsub 10 7 = Fin (10 - 7)" by code_simp
  have e1: "fsub 7 7 = Fin (7 - 7)" by code_simp
  have "\<exists>out u v. reset_chill_hours_f64 ?s (AsInt 2) = Inr out \<and>
      snd (out ! 2) = Fin u \<and> snd (out ! 1) = Fin v \<and> u - v = snd (?s ! 2) - snd (?s ! 1)"
  proof (rule reset_chill_hours_f64_differences [OF d])
    show "2 < length ?s" by simp
    show "1 < length ?s" by simp
    show "bucket_key (start_doy (AsInt 2)) (fst (?s ! 2))
        = bucket_key (start_doy (AsInt 2)) (fst (?s ! 1))"
      using k by (simp add: sd)
    show "fsub (snd (?s ! 2)) (first_value (bucket_key (start_doy (AsInt 2))) ?s (fst (?s ! 2)))
        = Fin (snd (?s ! 2) - first_value (bucket_key (start_doy (AsInt 2))) ?s (fst (?s ! 2)))"
      using e2 by (simp add: sd f2)
    show "fsub (snd (?s ! 1)) (first_value (bucket_key (start_doy (AsInt 2))) ?s (fst (?s ! 1)))
        = Fin (snd (?s ! 1) - first_value (bucket_key (start_doy (AsInt 2))) ?s (fst (?s ! 1)))"
      using e1 by (simp add: sd f1)
  qed
  then obtain out u v where o: "reset_chill_hours_f64 ?s (AsInt 2) = Inr out"
    and u: "snd (out ! 2) = Fin u" and v: "snd (out ! 1) = Fin v"
    and uv: "u - v = snd (?s ! 2) - snd (?s ! 1)"
    by blast
  from uv have uv3: "u - v = 3" by simp
  show ?thesis
  proof (intro conjI)
    show "distinct (map fst ?s)" by (rule d)
    show "bucket_key 2 (2 * ns_per_day) = bucket_key 2 ns_per_day" by (rule k)
    show "fsub 10 7 = Fin (10 - 7)" by (rule e2)
    show "fsub 7 7 = Fin (7 - 7)" by (rule e1)
    show "\<exists>out u v. reset_chill_hours_f64 ?s (AsInt 2) = Inr out \<and>
        snd (out ! 2) = Fin u \<and> snd (out ! 1) = Fin v \<and> u - v = 3"
    proof (intro exI conjI)
      show "reset_chill_hours_f64 ?s (AsInt 2) = Inr out" by (rule o)
      show "snd (out ! 2) = Fin u" by (rule u)
      show "snd (out ! 1) = Fin v" by (rule v)
      show "u - v = 3" by (rule uv3)
    qed
  qed
qed

text \<open>
  The floats that the literals 0.1, 0.2 and 0.4 denote.
\<close>

lemma literals_as_floats:
  "round64 0.1 = 3602879701896397 / 36028797018963968"
  "round64 0.2 = 3602879701896397 / 18014398509481984"
  "round64 0.4 = 3602879701896397 / 9007199254740992"
  by code_simp+

text \<open>
  C10, as the claim states it, fails on the floats that the literals 0.1, 0.2 and 0.4
  denote, three hours of one bucket: the outputs are 0, 0.1 and 0.30000000000000004,
  and the last two differ by more than the inputs 0.2 and 0.4 do.
\<close>

theorem reset_chill_hours_f64_rounds:
  "bucket_key 1 ns_per_hour = bucket_key 1 (2 * ns_per_hour) \<and>
   reset_chill_hours_f64
     [(0, 3602879701896397 / 36028797018963968),
      (ns_per_hour, 3602879701896397 / 18014398509481984),
      (2 * ns_per_hour, 3602879701896397 / 9007199254740992)] (AsInt 1)
   = Inr [(0, Fin 0), (ns_per_hour, Fin (3602879701896397 / 36028797018963968)),
          (2 * ns_per_hour, Fin (5404319552844596 / 18014398509481984))] \<and>
   (5404319552844596 / 18014398509481984 - 3602879701896397 / 36028797018963968 :: real)
     \<noteq> 3602879701896397 / 9007199254740992 - 3602879701896397 / 18014398509481984"
  by code_simp

text \<open>
  C8, as the code has it. The reset checks no range: for a series with pairwise distinct
  timestamps, an integer anchor below 1 or above 366, of a size that the 64-bit
  arithmetic of the key holds, raises nothing, and the reset returns a series.
\<close>

theorem reset_chill_hours_any_anchor:
  assumes "n < 1 \<or> 366 < n" and "exact_anchor n" and "distinct (map fst s)"
  shows "\<exists>out. reset_chill_hours s (AsInt n) = Inr out"
  by (simp add: reset_chill_hours_Inr)

theorem reset_chill_hours_any_anchor_witness:
  "((400::int) < 1 \<or> 366 < (400::int)) \<and> exact_anchor 400 \<and>
   distinct (map fst [(0, 5), (ns_per_day, 7), (2 * ns_per_day, 10 :: real)]) \<and>
   (\<exists>out. reset_chill_hours [(0, 5), (ns_per_day, 7), (2 * ns_per_day, 10)] (AsInt 400) = Inr out)"
proof -
  let ?s = "[(0, 5), (ns_per_day, 7), (2 * ns_per_day, 10 :: real)]"
  have r: "(400::int) < 1 \<or> 366 < (400::int)" by simp
  have e: "exact_anchor 400" by (simp add: exact_anchor_def)
  have d: "distinct (map fst ?s)" by code_simp
  from reset_chill_hours_any_anchor [OF r e d]
  have o: "\<exists>out. reset_chill_hours ?s (AsInt 400) = Inr out" .
  show ?thesis
  proof (intro conjI)
    show "(400::int) < 1 \<or> 366 < (400::int)" by (rule r)
    show "exact_anchor 400" by (rule e)
    show "distinct (map fst ?s)" by (rule d)
    show "\<exists>out. reset_chill_hours ?s (AsInt 400) = Inr out" by (rule o)
  qed
qed

text \<open>
  C8, as the claim states it, fails: with the anchor 400 the reset of a three-day series
  is a series, not an error.
\<close>

theorem reset_chill_hours_anchor_400:
  "reset_chill_hours [(0, 5), (ns_per_day, 7), (2 * ns_per_day, 10)] (AsInt 400)
   = Inr [(0, 0), (ns_per_day, 2), (2 * ns_per_day, 5)]"
  by code_simp

section \<open>Series normalization\<close>

subsection \<open>Hourly indexes\<close>

text \<open>
  For an index of three or more timestamps, the inference answers hourly exactly when
  every timestamp is one hour after the one before it.
\<close>

lemma deltas_Cons2: "deltas (a # b # ts) = (b - a) # deltas (b # ts)"
  by (simp add: deltas_def)

lemma deltas_short: "deltas [] = []" "deltas [a] = []"
  by (simp_all add: deltas_def)

lemma regular_hourly_deltas: "regular_hourly idx \<Longrightarrow> set (deltas idx) \<subseteq> {ns_per_hour}"
  by (induction idx rule: regular_hourly.induct) (simp_all add: deltas_Cons2 deltas_short)

lemma deltas_regular_hourly: "set (deltas idx) \<subseteq> {ns_per_hour} \<Longrightarrow> regular_hourly idx"
  by (induction idx rule: regular_hourly.induct) (simp_all add: deltas_Cons2 deltas_short)

lemma deltas_nonempty: "2 \<le> length idx \<Longrightarrow> deltas idx \<noteq> []"
  by (cases idx rule: regular_hourly.cases) (simp_all add: deltas_Cons2)

lemma infer_freq_regular:
  assumes "3 \<le> length idx" and "regular_hourly idx"
  shows "infer_freq_is_H idx = Inr True"
proof -
  from assms(1) have "deltas idx \<noteq> []" by (simp add: deltas_nonempty)
  then have "set (deltas idx) \<noteq> {}" by simp
  with regular_hourly_deltas [OF assms(2)] have "set (deltas idx) = {ns_per_hour}"
    by (metis subset_singleton_iff)
  with assms(1) show ?thesis by (simp add: infer_freq_is_H_def)
qed

text \<open>
  C9, as the code has it. For a series of at least three entries in which every
  timestamp is one hour after the one before it, the normalization block returns the
  series as it is and prints nothing, so no resampling is reported; the chilling hours
  model then counts on the index of the input.
\<close>

theorem normalize_hourly:
  assumes "3 \<le> length df" and "regular_hourly (map fst df)"
  shows "normalize df = ([], Inr df) \<and>
     chilling_hours df = ([], Inr (zip (map fst df) (count_where (\<lambda>v. v < 7.2) df)))"
proof -
  from assms have "infer_freq_is_H (map fst df) = Inr True"
    by (simp add: infer_freq_regular)
  then have "normalize df = ([], Inr df)" by (simp add: normalize_def)
  then show ?thesis by (simp add: chilling_hours_def)
qed

theorem normalize_hourly_witness:
  "3 \<le> length [(0, 1 :: real), (ns_per_hour, 2), (2 * ns_per_hour, 3)] \<and>
   regular_hourly (map fst [(0, 1 :: real), (ns_per_hour, 2), (2 * ns_per_hour, 3)]) \<and>
   normalize [(0, 1), (ns_per_hour, 2), (2 * ns_per_hour, 3)]
     = ([], Inr [(0, 1), (ns_per_hour, 2), (2 * ns_per_hour, 3)])"
proof -
  let ?df = "[(0, 1 :: real), (ns_per_hour, 2), (2 * ns_per_hour, 3)]"
  have l: "3 \<le> length ?df" by simp
  have r: "regular_hourly (map fst ?df)" by simp
  from normalize_hourly [OF l r] have n: "normalize ?df = ([], Inr ?df)" by (rule conjunct1)
  show ?thesis
  proof (intro conjI)
    show "3 \<le> length ?df" by (rule l)
    show "regular_hourly (map fst ?df)" by (rule r)
    show "normalize ?df = ([], Inr ?df)" by (rule n)
  qed
qed

text \<open>
  C9, as the claim states it, fails on two entries one hour apart: the index is hourly,
  and frequency inference raises ValueError for want of a third timestamp.
\<close>

theorem normalize_two_hours:
  "regular_hourly (map fst [(0, 5 :: real), (ns_per_hour, 6)]) \<and>
   normalize [(0, 5), (ns_per_hour, 6)] = ([], Inl ValueError)"
  by (simp add: normalize_def infer_freq_is_H_def)

subsection \<open>The models and the normalization block\<close>

text \<open>
  Every hourly model starts with the normalization block: it prints what the block
  prints, fails where the block fails, and returns a result where the block does.
\<close>

lemma models_print_normalize:
  "fst (chilling_hours df) = fst (normalize df)"
  "fst (utah df fm) = fst (normalize df)"
  "fst (positive_chill_units df) = fst (normalize df)"
  "fst (low_chill df) = fst (normalize df)"
  "fst (north_carolina df) = fst (normalize df)"
  "fst (dynamic df) = fst (normalize df)"
  by (simp_all add: chilling_hours_def utah_def positive_chill_units_def low_chill_def
      north_carolina_def dynamic_def split: prod.splits sum.splits)

lemma models_fail_with_normalize:
  assumes "snd (normalize df) = Inl e"
  shows "snd (chilling_hours df) = Inl e" "snd (utah df fm) = Inl e"
    "snd (positive_chill_units df) = Inl e" "snd (low_chill df) = Inl e"
    "snd (north_carolina df) = Inl e" "snd (dynamic df) = Inl e"
  using assms
  by (auto simp: chilling_hours_def utah_def positive_chill_units_def low_chill_def
      north_carolina_def dynamic_def split: prod.splits sum.splits)

lemma models_return_with_normalize:
  assumes "snd (normalize df) = Inr temps"
  shows "\<exists>r. snd (chilling_hours df) = Inr r" "\<exists>r. snd (utah df fm) = Inr r"
    "\<exists>r. snd (positive_chill_units df) = Inr r" "\<exists>r. snd (low_chill df) = Inr r"
    "\<exists>r. snd (north_carolina df) = Inr r" "\<exists>r. snd (dynamic df) = Inr r"
  using assms
  by (auto simp: chilling_hours_def utah_def positive_chill_units_def low_chill_def
      north_carolina_def dynamic_def split: prod.splits sum.splits)

subsection \<open>Resampling\<close>

text \<open>
  The labels of the resampler are one bin apart, none of them lies after the last
  observation, and there is at least one; so backward filling finds a value for every
  label, and resampling a non-empty series with pairwise distinct timestamps gives a
  non-empty series on exactly these labels.
\<close>

lemma regular_hourly_Cons:
  "regular_hourly (a # xs) \<longleftrightarrow> xs = [] \<or> (hd xs = a + ns_per_hour \<and> regular_hourly xs)"
  by (cases xs) auto

lemma regular_hourly_upt:
  "regular_hourly (map (\<lambda>k. c + int k * ns_per_hour) [m..<m + n])"
proof (induction n arbitrary: m)
  case 0
  then show ?case by simp
next
  case (Suc n)
  have split: "[m..<m + Suc n] = m # [Suc m..<Suc m + n]"
    by (simp add: upt_conv_Cons del: upt_Suc)
  have first: "hd (map (\<lambda>k. c + int k * ns_per_hour) [Suc m..<Suc m + n])
      = c + int m * ns_per_hour + ns_per_hour" if "n \<noteq> 0"
  proof -
    from that have "[Suc m..<Suc m + n] = Suc m # [Suc (Suc m)..<Suc m + n]"
      by (simp add: upt_conv_Cons del: upt_Suc)
    then show ?thesis by (simp add: algebra_simps)
  qed
  have empty: "map (\<lambda>k. c + int k * ns_per_hour) [Suc m..<Suc m + n] = []" if "n = 0"
    using that by simp
  show ?case
    unfolding split list.map regular_hourly_Cons
    using Suc.IH [of "Suc m"] first empty by (cases "n = 0") simp_all
qed

lemma butlast_upt: "butlast [m..<n] = [m..<n - 1]"
  by (cases n) auto

lemma sorted_hd_last: "sorted xs \<Longrightarrow> xs \<noteq> [] \<Longrightarrow> hd xs \<le> (last xs :: int)"
  by (cases xs) auto

lemma bin_labels_eq:
  "bin_labels f a b =
     map (\<lambda>k. (a - (a - (a - a mod ns_per_day)) mod f) + int k * f)
       [0..<nat ((b + (f - (b - (a - a mod ns_per_day)) mod f)
                  - (a - (a - (a - a mod ns_per_day)) mod f)) div f + 1) - 1]"
  by (simp add: bin_labels_def date_range_def Let_def map_butlast [symmetric] butlast_upt)

lemma regular_hourly_bin_labels: "regular_hourly (bin_labels ns_per_hour a b)"
  using regular_hourly_upt [of _ 0] by (simp add: bin_labels_eq)

lemma bin_labels_le:
  assumes "0 < f" and "l \<in> set (bin_labels f a b)"
  shows "l \<le> b"
proof -
  let ?o = "a - a mod ns_per_day"
  let ?fr = "a - (a - ?o) mod f"
  let ?lr = "b + (f - (b - ?o) mod f)"
  let ?q = "(?lr - ?fr) div f"
  from assms(2) obtain k where k: "k < nat (?q + 1) - 1" and l: "l = ?fr + int k * f"
    by (auto simp: bin_labels_eq)
  from k have "int k + 1 \<le> ?q" by linarith
  then have "(int k + 1) * f \<le> ?q * f" using assms(1) by (simp add: mult_right_mono)
  also have "\<dots> \<le> ?lr - ?fr"
  proof -
    have "?q * f + (?lr - ?fr) mod f = ?lr - ?fr" by (rule div_mult_mod_eq)
    moreover have "0 \<le> (?lr - ?fr) mod f" using assms(1) by simp
    ultimately show ?thesis by linarith
  qed
  finally have "?fr + int k * f \<le> ?lr - f" by (simp add: algebra_simps)
  moreover have "0 \<le> (b - ?o) mod f" using assms(1) by simp
  ultimately show ?thesis using l by linarith
qed

lemma bin_labels_nonempty:
  assumes "0 < f" and "a \<le> b"
  shows "bin_labels f a b \<noteq> []"
proof -
  let ?o = "a - a mod ns_per_day"
  let ?fr = "a - (a - ?o) mod f"
  let ?lr = "b + (f - (b - ?o) mod f)"
  have "(a - ?o) div f \<le> (b - ?o) div f"
    using assms by (simp add: zdiv_mono1)
  then have "f * ((a - ?o) div f) \<le> f * ((b - ?o) div f)"
    using assms(1) by (simp add: mult_left_mono)
  moreover have "f * ((a - ?o) div f) = (a - ?o) - (a - ?o) mod f"
    by (simp add: minus_mod_eq_mult_div)
  moreover have "f * ((b - ?o) div f) = (b - ?o) - (b - ?o) mod f"
    by (simp add: minus_mod_eq_mult_div)
  ultimately have "f \<le> ?lr - ?fr" by linarith
  then have "f div f \<le> (?lr - ?fr) div f" using assms(1) by (rule zdiv_mono1)
  then have "1 \<le> (?lr - ?fr) div f" using assms(1) by simp
  then have "0 < nat ((?lr - ?fr) div f + 1) - 1" by linarith
  then show ?thesis by (simp add: bin_labels_eq)
qed

lemma bfill_labels:
  "(\<And>l. l \<in> set labels \<Longrightarrow> \<exists>x\<in>set obs. l \<le> fst x) \<Longrightarrow> map fst (bfill obs labels) = labels"
proof (induction labels)
  case Nil
  then show ?case by (simp add: bfill_def map_filter_simps)
next
  case (Cons l labels)
  from Cons.prems [of l] obtain x where x: "x \<in> set obs" "l \<le> fst x" by auto
  have "find (\<lambda>(t, v). l \<le> t) obs \<noteq> None"
  proof
    assume "find (\<lambda>(t, v). l \<le> t) obs = None"
    then have "\<not> (\<exists>y. y \<in> set obs \<and> l \<le> fst y)"
      by (simp add: find_None_iff case_prod_unfold)
    with x show False by blast
  qed
  then obtain y where y: "find (\<lambda>(t, v). l \<le> t) obs = Some y" by auto
  have "map fst (bfill obs labels) = labels" using Cons by simp
  with y show ?case by (simp add: bfill_def map_filter_simps case_prod_unfold)
qed

lemma sort_key_distinct_fst:
  "distinct (map fst s) \<Longrightarrow> distinct (map fst (sort_key fst s))"
  by (metis mset_eq_imp_distinct_iff mset_map mset_sort)

lemma in_bounds:
  assumes "0 < f" and "ts_min + ns_per_day \<le> a" and "b + f \<le> ts_max"
  shows "\<not> out_of_bounds f a b"
proof -
  have "a mod ns_per_day < ns_per_day" by (simp add: ns_per_day_def)
  moreover have "0 \<le> (b - (a - a mod ns_per_day)) mod f" using assms(1) by simp
  ultimately have "ts_min \<le> a - a mod ns_per_day"
    and "b + (f - (b - (a - a mod ns_per_day)) mod f) \<le> ts_max"
    using assms(2,3) by linarith+
  then show ?thesis by (simp add: out_of_bounds_def Let_def not_less)
qed

lemma resample_bfill_ok:
  assumes "distinct (map fst s)" and "s \<noteq> []" and "0 < f"
    and "\<And>t. t \<in> set (map fst s) \<Longrightarrow> ts_min + ns_per_day \<le> t \<and> t + f \<le> ts_max"
  shows "\<exists>temps. resample_bfill f s = Inr temps \<and> temps \<noteq> [] \<and>
     map fst temps = bin_labels f (fst (hd (sort_key fst s))) (fst (last (sort_key fst s)))"
proof -
  let ?obs = "sort_key fst s"
  let ?labels = "bin_labels f (fst (hd ?obs)) (fst (last ?obs))"
  have ne: "?obs \<noteq> []" using assms(2) by (metis length_sort length_0_conv)
  have d: "distinct (map fst ?obs)" using assms(1) by (rule sort_key_distinct_fst)
  have "sorted (map fst ?obs)" by (rule sorted_sort_key)
  then have "hd (map fst ?obs) \<le> last (map fst ?obs)"
    using ne by (simp add: sorted_hd_last)
  then have hl: "fst (hd ?obs) \<le> fst (last ?obs)" using ne by (simp add: hd_map last_map)
  have "\<exists>x\<in>set ?obs. l \<le> fst x" if "l \<in> set ?labels" for l
    using bin_labels_le [OF assms(3) that] ne last_in_set by blast
  then have m: "map fst (bfill ?obs ?labels) = ?labels" by (rule bfill_labels)
  have "?labels \<noteq> []" using assms(3) hl by (rule bin_labels_nonempty)
  with m have b: "bfill ?obs ?labels \<noteq> []" by auto
  have "hd ?obs \<in> set s" "last ?obs \<in> set s" using ne hd_in_set last_in_set by fastforce+
  then have "fst (hd ?obs) \<in> set (map fst s)" "fst (last ?obs) \<in> set (map fst s)" by simp_all
  then have "ts_min + ns_per_day \<le> fst (hd ?obs)" "fst (last ?obs) + f \<le> ts_max"
    using assms(4) by blast+
  with assms(3) have "\<not> out_of_bounds f (fst (hd ?obs)) (fst (last ?obs))" by (rule in_bounds)
  with ne d m b show ?thesis by (simp add: resample_bfill_def Let_def)
qed

text \<open>
  The edge of the range: three timestamps of 2262-04-11, the last one at 23:00, have
  their next hourly bin edge after the last timestamp that 64 bits hold, and the
  normalization block fails after printing its warning.
\<close>

lemma normalize_out_of_bounds:
  "normalize [(9223369200000000000 - 3 * ns_per_hour, 1), (9223369200000000000 - ns_per_hour, 2),
      (9223369200000000000, 3)]
   = ([reindex_warning], Inl OutOfBoundsDatetime)"
  by code_simp

text \<open>
  C6, as the code has it. On fewer than three entries, the empty and the single-point
  series among them, the normalization block fails with the ValueError of frequency
  inference. On at least three entries with pairwise distinct timestamps, none of them
  in the first day or the last hour of the range of the timestamps, it does not fail:
  it returns a non-empty series whose index is hourly.
\<close>

theorem normalize_total:
  "(length df < 3 \<longrightarrow> normalize df = ([], Inl ValueError)) \<and>
   (3 \<le> length df \<and> distinct (map fst df) \<and>
    (\<forall>t\<in>set (map fst df). ts_min + ns_per_day \<le> t \<and> t + ns_per_hour \<le> ts_max) \<longrightarrow>
      (\<exists>out temps. normalize df = (out, Inr temps) \<and> temps \<noteq> [] \<and>
         regular_hourly (map fst temps)))"
proof (intro conjI impI)
  assume "length df < 3"
  then show "normalize df = ([], Inl ValueError)"
    by (simp add: normalize_def infer_freq_is_H_def)
next
  assume a: "3 \<le> length df \<and> distinct (map fst df) \<and>
    (\<forall>t\<in>set (map fst df). ts_min + ns_per_day \<le> t \<and> t + ns_per_hour \<le> ts_max)"
  then have ne: "df \<noteq> []" by auto
  from a have dist: "distinct (map fst df)" by simp
  from a have rng: "\<And>t. t \<in> set (map fst df) \<Longrightarrow>
      ts_min + ns_per_day \<le> t \<and> t + ns_per_hour \<le> ts_max" by blast
  show "\<exists>out temps. normalize df = (out, Inr temps) \<and> temps \<noteq> [] \<and>
      regular_hourly (map fst temps)"
  proof (cases "set (deltas (map fst df)) = {ns_per_hour}")
    case True
    then have "regular_hourly (map fst df)" by (simp add: deltas_regular_hourly)
    moreover from True a have "normalize df = ([], Inr df)"
      by (simp add: normalize_def infer_freq_is_H_def)
    ultimately show ?thesis using ne by blast
  next
    case False
    with a have n: "normalize df = ([reindex_warning], resample_bfill ns_per_hour df)"
      by (simp add: normalize_def infer_freq_is_H_def)
    have "0 < ns_per_hour" by (simp add: ns_per_hour_def)
    from resample_bfill_ok [OF dist ne this rng]
    obtain temps where t: "resample_bfill ns_per_hour df = Inr temps" "temps \<noteq> []"
      "map fst temps = bin_labels ns_per_hour (fst (hd (sort_key fst df))) (fst (last (sort_key fst df)))"
      by blast
    from t(3) have "regular_hourly (map fst temps)" by (simp add: regular_hourly_bin_labels)
    with n t(1,2) show ?thesis by simp
  qed
qed

theorem normalize_total_witness:
  "3 \<le> length [(0, 1 :: real), (ns_per_hour, 2), (3 * ns_per_hour, 3)] \<and>
   distinct (map fst [(0, 1 :: real), (ns_per_hour, 2), (3 * ns_per_hour, 3)]) \<and>
   ts_min + ns_per_day \<le> 0 \<and> 3 * ns_per_hour + ns_per_hour \<le> ts_max \<and>
   (\<exists>out temps. normalize [(0, 1), (ns_per_hour, 2), (3 * ns_per_hour, 3)] = (out, Inr temps) \<and>
      temps \<noteq> [] \<and> regular_hourly (map fst temps))"
proof -
  let ?df = "[(0, 1 :: real), (ns_per_hour, 2), (3 * ns_per_hour, 3)]"
  have l: "3 \<le> length ?df" by simp
  have d: "distinct (map fst ?df)" by (simp add: ns_per_hour_def)
  have lo: "ts_min + ns_per_day \<le> 0" by (simp add: ts_min_def ns_per_day_def)
  have hi: "3 * ns_per_hour + ns_per_hour \<le> ts_max" by (simp add: ts_max_def ns_per_hour_def)
  have r: "\<forall>t\<in>set (map fst ?df). ts_min + ns_per_day \<le> t \<and> t + ns_per_hour \<le> ts_max"
    by (simp add: ts_min_def ts_max_def ns_per_day_def ns_per_hour_def)
  from l d r have "3 \<le> length ?df \<and> distinct (map fst ?df) \<and>
      (\<forall>t\<in>set (map fst ?df). ts_min + ns_per_day \<le> t \<and> t + ns_per_hour \<le> ts_max)"
    by (intro conjI)
  with normalize_total [of ?df]
  have e: "\<exists>out temps. normalize ?df = (out, Inr temps) \<and> temps \<noteq> [] \<and>
      regular_hourly (map fst temps)"
    by blast
  show ?thesis
  proof (intro conjI)
    show "3 \<le> length ?df" by (rule l)
    show "distinct (map fst ?df)" by (rule d)
    show "ts_min + ns_per_day \<le> 0" by (rule lo)
    show "3 * ns_per_hour + ns_per_hour \<le> ts_max" by (rule hi)
    show "\<exists>out temps. normalize ?df = (out, Inr temps) \<and> temps \<noteq> [] \<and>
        regular_hourly (map fst temps)" by (rule e)
  qed
qed

text \<open>
  C6, as the claim states it, fails on the empty series and on a single point: the
  normalization block, and with it the chilling hours model, raises ValueError.
\<close>

theorem normalize_short_series:
  "normalize [] = ([], Inl ValueError) \<and> normalize [(0, 5)] = ([], Inl ValueError) \<and>
   chilling_hours [] = ([], Inl ValueError) \<and> chilling_hours [(0, 5)] = ([], Inl ValueError)"
  by (simp add: normalize_def chilling_hours_def infer_freq_is_H_def)

section \<open>The daily model\<close>

text \<open>
  C1 on two observations of one day, 2 degrees at midnight and 4 degrees at noon, with
  the base temperature 1: the daily resampling of \<^verbatim>\<open>landsberg\<close> fills backward, so
  the day holds the observation of midnight and the result is 2, where the mean of the
  day, which the docstring and the specification name, gives 3.
\<close>

theorem landsberg_backfills:
  "landsberg [(0, 2), (12 * ns_per_hour, 4)] 1 = Inr [(0, Fin 2)] \<and>
   landsberg_spec [(0, 2), (12 * ns_per_hour, 4)] 1 = [(0, 3)]"
  by code_simp

lemma length_cumsum_from: "length (cumsum_from acc xs) = length xs"
  by (induction xs arbitrary: acc) simp_all

lemma fdiv_zero: "fdiv x 0 \<in> {PInf, NInf, NaN}"
  by (simp add: fdiv_def)

text \<open>
  C5, as the code has it. The daily model checks no base temperature. For a series with
  pairwise distinct timestamps, none of them in the first or the last day of the range
  of the timestamps, and the base temperature 0 it raises nothing: it returns a series,
  non-empty when the input is, in which every value is an infinity or NaN, the results
  of the float division by zero whatever the running sum and its rounding are.
\<close>

theorem landsberg_zero_base:
  assumes "distinct (map fst df)"
    and "\<forall>t\<in>set (map fst df). ts_min + ns_per_day \<le> t \<and> t + ns_per_day \<le> ts_max"
  shows "\<exists>out. landsberg df 0 = Inr out \<and> (\<forall>x\<in>set out. snd x \<in> {PInf, NInf, NaN}) \<and>
     (df \<noteq> [] \<longrightarrow> out \<noteq> [])"
proof (cases "df = []")
  case True
  then show ?thesis by (simp add: landsberg_def resample_bfill_def)
next
  case False
  have "0 < ns_per_day" by (simp add: ns_per_day_def)
  moreover have "\<And>t. t \<in> set (map fst df) \<Longrightarrow>
      ts_min + ns_per_day \<le> t \<and> t + ns_per_day \<le> ts_max"
    using assms(2) by blast
  ultimately obtain temps where t: "resample_bfill ns_per_day df = Inr temps" "temps \<noteq> []"
    using resample_bfill_ok [OF assms(1) False] by blast
  let ?out = "zip (map fst temps) (map (\<lambda>x. fdiv x 0) (cumsum (map snd temps)))"
  have "landsberg df 0 = Inr ?out" using t(1) by (simp add: landsberg_def)
  moreover have "\<forall>x\<in>set ?out. snd x \<in> {PInf, NInf, NaN}"
  proof
    fix x assume "x \<in> set ?out"
    then have "snd x \<in> set (map (\<lambda>x. fdiv x 0) (cumsum (map snd temps)))"
      by (metis in_set_zipE prod.collapse)
    then obtain v where "snd x = fdiv v 0" by auto
    with fdiv_zero [of v] show "snd x \<in> {PInf, NInf, NaN}" by simp
  qed
  moreover have "?out \<noteq> []"
    using t(2) by (simp add: cumsum_def length_cumsum_from flip: length_greater_0_conv)
  ultimately show ?thesis by blast
qed

theorem landsberg_zero_base_witness:
  "distinct (map fst [(0, 2 :: real), (12 * ns_per_hour, 4)]) \<and>
   ts_min + ns_per_day \<le> 0 \<and> 12 * ns_per_hour + ns_per_day \<le> ts_max \<and>
   (\<exists>out. landsberg [(0, 2), (12 * ns_per_hour, 4)] 0 = Inr out \<and> out \<noteq> [])"
proof -
  let ?df = "[(0, 2 :: real), (12 * ns_per_hour, 4)]"
  have d: "distinct (map fst ?df)" by (simp add: ns_per_hour_def)
  have lo: "ts_min + ns_per_day \<le> 0" by (simp add: ts_min_def ns_per_day_def)
  have hi: "12 * ns_per_hour + ns_per_day \<le> ts_max"
    by (simp add: ts_max_def ns_per_hour_def ns_per_day_def)
  have r: "\<forall>t\<in>set (map fst ?df). ts_min + ns_per_day \<le> t \<and> t + ns_per_day \<le> ts_max"
    by (simp add: ts_min_def ts_max_def ns_per_day_def ns_per_hour_def)
  from landsberg_zero_base [OF d r]
  obtain out where o: "landsberg ?df 0 = Inr out" and n: "?df \<noteq> [] \<longrightarrow> out \<noteq> []"
    by blast
  from n have ne: "out \<noteq> []" by simp
  show ?thesis
  proof (intro conjI)
    show "distinct (map fst ?df)" by (rule d)
    show "ts_min + ns_per_day \<le> 0" by (rule lo)
    show "12 * ns_per_hour + ns_per_day \<le> ts_max" by (rule hi)
    show "\<exists>out. landsberg ?df 0 = Inr out \<and> out \<noteq> []"
    proof (rule exI [of _ out], rule conjI)
      show "landsberg ?df 0 = Inr out" by (rule o)
      show "out \<noteq> []" by (rule ne)
    qed
  qed
qed

text \<open>
  C5, as the claim states it, fails: with the base temperature 0 the daily model returns
  a series holding the positive infinity, not an error.
\<close>

theorem landsberg_zero_base_example:
  "landsberg [(0, 2), (12 * ns_per_hour, 4)] 0 = Inr [(0, PInf)]"
  by code_simp

end
